theory Spec2Isabelle
  imports Main "HOL-Library.Sublist"
begin

section \<open>JavaScript values and strings\<close>

text \<open>
  The server (\<open>server/index.js\<close>) reads the fields of a JSON request body and tests them
  with \<open>!v\<close> and \<open>v || d\<close>. A body field is a JavaScript value; \<open>JUndefined\<close> is what
  destructuring yields for a key the body does not have. Numbers are kept as integers
  (every non-zero number is truthy), and \<open>JObject\<close> stands for any object or array.
\<close>

datatype jsval = JUndefined | JNull | JBool bool | JNum int | JStr string | JObject

text \<open>\<open>!v\<close>: the values JavaScript treats as false.\<close>

definition falsy :: "jsval \<Rightarrow> bool" where
  "falsy v = (case v of
       JUndefined \<Rightarrow> True
     | JNull \<Rightarrow> True
     | JBool b \<Rightarrow> \<not> b
     | JNum n \<Rightarrow> n = 0
     | JStr s \<Rightarrow> s = []
     | JObject \<Rightarrow> False)"

text \<open>\<open>a || b\<close>.\<close>

definition js_or :: "jsval \<Rightarrow> jsval \<Rightarrow> jsval" where
  "js_or a b = (if falsy a then b else a)"

text \<open>
  A string is the list of the bytes of its UTF-8 encoding, so a string of ASCII characters
  is the list of its characters. On such a string JavaScript's \<open>toUpperCase\<close> and
  \<open>toLowerCase\<close> map the letters \<open>a\<close> to \<open>z\<close> and \<open>A\<close> to \<open>Z\<close> and nothing else.
\<close>

definition is_ascii :: "string \<Rightarrow> bool" where
  "is_ascii s = list_all (\<lambda>c. (of_char c :: nat) < 128) s"

definition is_lower :: "char \<Rightarrow> bool" where
  "is_lower c = (97 \<le> (of_char c :: nat) \<and> (of_char c :: nat) \<le> 122)"

definition is_upper :: "char \<Rightarrow> bool" where
  "is_upper c = (65 \<le> (of_char c :: nat) \<and> (of_char c :: nat) \<le> 90)"

definition upper_char :: "char \<Rightarrow> char" where
  "upper_char c = (if is_lower c then char_of ((of_char c :: nat) - 32) else c)"

definition lower_char :: "char \<Rightarrow> char" where
  "lower_char c = (if is_upper c then char_of ((of_char c :: nat) + 32) else c)"

text \<open>\<open>s.split(c)\<close> for a one-character separator: never empty, one more piece than separators.\<close>

fun split :: "char \<Rightarrow> string \<Rightarrow> string list" where
  "split c [] = [[]]"
| "split c (x # xs) =
     (if x = c then [] # split c xs
      else (case split c xs of
              w # ws \<Rightarrow> (x # w) # ws
            | [] \<Rightarrow> [[x]]))"

text \<open>\<open>arr[i]\<close> read as a value that may be \<open>undefined\<close>.\<close>

definition at_index :: "'a list \<Rightarrow> nat \<Rightarrow> 'a option" where
  "at_index xs i = (if i < length xs then Some (xs ! i) else None)"

text \<open>\<open>arr.indexOf(v)\<close>: the first position of \<open>v\<close>, or \<open>-1\<close>.\<close>

fun indexOf :: "string list \<Rightarrow> string \<Rightarrow> int" where
  "indexOf [] v = - 1"
| "indexOf (x # xs) v =
     (if x = v then 0
      else (let i = indexOf xs v in if i < 0 then - 1 else i + 1))"

text \<open>
  \<open>arr.find(p)\<close> returns a reference to the first element satisfying \<open>p\<close>; the handlers
  that mutate through that reference need its position, which \<open>find_ref\<close> gives.
\<close>

fun find_ref :: "('a \<Rightarrow> bool) \<Rightarrow> 'a list \<Rightarrow> nat option" where
  "find_ref P [] = None"
| "find_ref P (x # xs) = (if P x then Some 0 else map_option Suc (find_ref P xs))"

section \<open>The data model\<close>

record user =
  user_id :: string
  name :: jsval
  email :: string
  password :: string

record entry =
  entry_status :: string
  at :: string

record shipment =
  shipment_id :: string
  tracking :: string
  createdAt :: string
  status :: string
  service :: jsval
  weight :: jsval
  toName :: jsval
  toAddress :: jsval
  history :: "entry list"
  owner :: string

record db =
  users :: "user list"
  shipments :: "shipment list"

text \<open>
  \<open>db.data\<close>. Every handler loads it with \<open>db.read()\<close> and stores it with \<open>db.write()\<close>;
  the model is its value between two requests, handled one after the other.
  \<open>initDB\<close>: \<open>db.data ||= { users: [], shipments: [] }\<close>.
\<close>

definition init_db :: db where
  "init_db = \<lparr>users = [], shipments = []\<rparr>"

text \<open>The payload of a verified token, \<open>{ id, email }\<close>, as \<open>jwt.sign\<close> receives it.\<close>

record payload =
  payload_id :: string
  payload_email :: string

text \<open>
  A request: the \<open>Authorization\<close> header, the \<open>:tracking\<close> route parameter and the JSON
  body, read by key (\<open>JUndefined\<close> for a key that is not there).
\<close>

record request =
  authorization :: "string option"
  params_tracking :: string
  body :: "string \<Rightarrow> jsval"

text \<open>
  What the handlers take from outside the program: the random bytes \<open>nanoid(size)\<close> reads
  from its pool, the \<open>k\<close>-th \<open>new Date().toISOString()\<close> of the request, the bcrypt and
  jsonwebtoken calls (\<open>None\<close> where the library throws or rejects), and the results of the
  engine's \<open>toUpperCase\<close> and \<open>toLowerCase\<close> on strings that are not ASCII: the Unicode
  case-mapping tables are not part of the source.
\<close>

record env =
  random_bytes :: "nat \<Rightarrow> nat list"
  clock :: "nat \<Rightarrow> string"
  bcrypt_hash :: "jsval \<Rightarrow> string option"
  bcrypt_compare :: "jsval \<Rightarrow> string \<Rightarrow> bool option"
  jwt_sign :: "payload \<Rightarrow> string"
  jwt_verify :: "string \<Rightarrow> payload option"
  unicode_upper :: "string \<Rightarrow> string"
  unicode_lower :: "string \<Rightarrow> string"

text \<open>
  \<open>s.toUpperCase()\<close> and \<open>s.toLowerCase()\<close>: computed on ASCII strings, the engine's
  otherwise.
\<close>

definition toUpperCase :: "env \<Rightarrow> string \<Rightarrow> string" where
  "toUpperCase e s = (if is_ascii s then map upper_char s else unicode_upper e s)"

definition toLowerCase :: "env \<Rightarrow> string \<Rightarrow> string" where
  "toLowerCase e s = (if is_ascii s then map lower_char s else unicode_lower e s)"

text \<open>
  \<open>nanoid(size)\<close> of the nanoid package (\<open>nanoid()\<close> is size 21): one character of its
  64-character URL alphabet for each byte it reads, \<open>urlAlphabet[byte & 63]\<close>.
\<close>

definition urlAlphabet :: string where
  "urlAlphabet = ''useandom-26T198340PX75pxJACKVERYMINDBUSHWOLF_GQZbfghjklqvwyzrict''"

definition nanoid :: "env \<Rightarrow> nat \<Rightarrow> string" where
  "nanoid e n = map (\<lambda>b. urlAlphabet ! (b mod 64)) (random_bytes e n)"

text \<open>
  A response is \<open>res.status(code).json({ error: message })\<close>, or a 200 reply. \<open>Thrown\<close> is
  an exception that leaves the handler (a method call on a value that has no such method,
  or a rejected library promise).
\<close>

datatype error = HttpError nat string | Thrown

datatype reply =
    AuthReply string string jsval string
  | ShipmentReply shipment
  | ShipmentsReply "shipment list"

type_synonym outcome = "(error + reply) \<times> db"

section \<open>The handlers\<close>

text \<open>\<open>authMiddleware\<close>: the payload it stores in \<open>req.user\<close>, or the 401 it answers.\<close>

definition authMiddleware :: "env \<Rightarrow> request \<Rightarrow> error + payload" where
  "authMiddleware e req =
     (case authorization req of
        None \<Rightarrow> Inl (HttpError 401 ''Missing auth'')
      | Some auth \<Rightarrow>
          if auth = [] then Inl (HttpError 401 ''Missing auth'')
          else (case at_index (split CHR '' '' auth) 1 of
                  None \<Rightarrow> Inl (HttpError 401 ''Invalid token'')
                | Some token \<Rightarrow>
                    (case jwt_verify e token of
                       None \<Rightarrow> Inl (HttpError 401 ''Invalid token'')
                     | Some p \<Rightarrow> Inr p)))"

text \<open>A route \<open>app.METHOD(path, authMiddleware, handler)\<close>.\<close>

definition with_auth :: "env \<Rightarrow> request \<Rightarrow> db \<Rightarrow> (payload \<Rightarrow> outcome) \<Rightarrow> outcome" where
  "with_auth e req d handler =
     (case authMiddleware e req of
        Inl err \<Rightarrow> (Inl err, d)
      | Inr u \<Rightarrow> handler u)"

text \<open>
  \<open>POST /api/register\<close>. An email that is truthy and not a string has no \<open>toLowerCase\<close>:
  the call throws in the \<open>find\<close> callback when a user is stored, and in the user literal
  (if \<open>bcrypt.hash\<close> has not rejected before) when none is.
\<close>

definition register :: "env \<Rightarrow> request \<Rightarrow> db \<Rightarrow> outcome" where
  "register e req d =
     (if falsy (body req ''email'') \<or> falsy (body req ''password'')
      then (Inl (HttpError 400 ''email & password required''), d)
      else (case body req ''email'' of
              JStr em \<Rightarrow>
                (case find (\<lambda>u. email u = toLowerCase e em) (users d) of
                   Some _ \<Rightarrow> (Inl (HttpError 400 ''User exists''), d)
                 | None \<Rightarrow>
                     (case bcrypt_hash e (body req ''password'') of
                        None \<Rightarrow> (Inl Thrown, d)
                      | Some hash \<Rightarrow>
                          (let u = \<lparr>user_id = nanoid e 21,
                                    name = js_or (body req ''name'') (JStr []),
                                    email = toLowerCase e em,
                                    password = hash\<rparr>;
                               token = jwt_sign e \<lparr>payload_id = user_id u, payload_email = email u\<rparr>
                           in (Inr (AuthReply token (user_id u) (name u) (email u)),
                               d\<lparr>users := users d @ [u]\<rparr>))))
            | _ \<Rightarrow> (Inl Thrown, d)))"

text \<open>
  \<open>POST /api/login\<close>. \<open>email.toLowerCase()\<close> is evaluated in the \<open>find\<close> callback only, so
  with no stored user an email that is not a string is answered like an unknown one.
\<close>

definition login :: "env \<Rightarrow> request \<Rightarrow> db \<Rightarrow> outcome" where
  "login e req d =
     (if falsy (body req ''email'') \<or> falsy (body req ''password'')
      then (Inl (HttpError 400 ''email & password required''), d)
      else (case body req ''email'' of
              JStr em \<Rightarrow>
                (case find (\<lambda>u. email u = toLowerCase e em) (users d) of
                   None \<Rightarrow> (Inl (HttpError 400 ''Invalid credentials''), d)
                 | Some u \<Rightarrow>
                     (case bcrypt_compare e (body req ''password'') (password u) of
                        None \<Rightarrow> (Inl Thrown, d)
                      | Some ok \<Rightarrow>
                          if \<not> ok then (Inl (HttpError 400 ''Invalid credentials''), d)
                          else (Inr (AuthReply
                                  (jwt_sign e \<lparr>payload_id = user_id u, payload_email = email u\<rparr>)
                                  (user_id u) (name u) (email u)), d)))
            | _ \<Rightarrow>
                if users d = [] then (Inl (HttpError 400 ''Invalid credentials''), d)
                else (Inl Thrown, d)))"

text \<open>\<open>POST /api/shipments\<close>, after \<open>authMiddleware\<close> has set \<open>req.user\<close>.\<close>

definition create :: "env \<Rightarrow> payload \<Rightarrow> request \<Rightarrow> db \<Rightarrow> outcome" where
  "create e req_user req d =
     (if falsy (body req ''toName'') \<or> falsy (body req ''toAddress'')
      then (Inl (HttpError 400 ''toName & toAddress required''), d)
      else (let s = \<lparr>shipment_id = nanoid e 21,
                      tracking = toUpperCase e (nanoid e 10),
                      createdAt = clock e 0,
                      status = ''Label Created'',
                      service = js_or (body req ''service'') (JStr ''Ground''),
                      weight = js_or (body req ''weight'') (JStr ''0.0''),
                      toName = body req ''toName'',
                      toAddress = body req ''toAddress'',
                      history = [\<lparr>entry_status = ''Label Created'', at = clock e 1\<rparr>],
                      owner = payload_id req_user\<rparr>
            in (Inr (ShipmentReply s), d\<lparr>shipments := shipments d @ [s]\<rparr>)))"

text \<open>\<open>GET /api/shipments/:tracking\<close>.\<close>

definition lookup :: "env \<Rightarrow> request \<Rightarrow> db \<Rightarrow> outcome" where
  "lookup e req d =
     (case find (\<lambda>x. tracking x = toUpperCase e (params_tracking req)) (shipments d) of
        None \<Rightarrow> (Inl (HttpError 404 ''Not found''), d)
      | Some s \<Rightarrow> (Inr (ShipmentReply s), d))"

text \<open>\<open>GET /api/my-shipments\<close>, after \<open>authMiddleware\<close>.\<close>

definition my_shipments :: "payload \<Rightarrow> db \<Rightarrow> outcome" where
  "my_shipments req_user d =
     (Inr (ShipmentsReply (filter (\<lambda>s. owner s = payload_id req_user) (shipments d))), d)"

text \<open>\<open>POST /api/shipments/:tracking/advance\<close>.\<close>

definition nextStatuses :: "string list" where
  "nextStatuses = [''Label Created'', ''Picked Up'', ''In Transit'', ''Out for Delivery'', ''Delivered'']"

text \<open>
  \<open>next\<close>, from \<open>s.status\<close>:
  \<open>nextStatuses[Math.min(nextStatuses.indexOf(s.status) + 1, nextStatuses.length - 1)]\<close>.
  The index lies between 0 and 4, so the read is in range.
\<close>

definition next_status :: "string \<Rightarrow> string" where
  "next_status cur =
     (let curIndex = indexOf nextStatuses cur
      in nextStatuses ! nat (min (curIndex + 1) (int (length nextStatuses) - 1)))"

text \<open>The two assignments through the reference \<open>s\<close>: the new status, and the pushed entry.\<close>

definition stepped :: "string \<Rightarrow> shipment \<Rightarrow> shipment" where
  "stepped now s =
     (let nxt = next_status (status s)
      in s\<lparr>status := nxt, history := history s @ [\<lparr>entry_status = nxt, at = now\<rparr>]\<rparr>)"

definition advance :: "env \<Rightarrow> request \<Rightarrow> db \<Rightarrow> outcome" where
  "advance e req d =
     (case find_ref (\<lambda>x. tracking x = toUpperCase e (params_tracking req)) (shipments d) of
        None \<Rightarrow> (Inl (HttpError 404 ''Not found''), d)
      | Some i \<Rightarrow>
          (let s = stepped (clock e 0) (shipments d ! i)
           in (Inr (ShipmentReply s), d\<lparr>shipments := (shipments d)[i := s]\<rparr>)))"

section \<open>Sequences of requests\<close>

text \<open>
  A request to one of the six routes, with what the handler takes from outside, and the
  store after a sequence of requests served one after the other from a given store.
\<close>

datatype call =
    Register env request
  | Login env request
  | Create env request
  | Lookup env request
  | MyShipments env request
  | Advance env request

fun handle :: "call \<Rightarrow> db \<Rightarrow> outcome" where
  "handle (Register e req) d = register e req d"
| "handle (Login e req) d = login e req d"
| "handle (Create e req) d = with_auth e req d (\<lambda>u. create e u req d)"
| "handle (Lookup e req) d = lookup e req d"
| "handle (MyShipments e req) d = with_auth e req d (\<lambda>u. my_shipments u d)"
| "handle (Advance e req) d = advance e req d"

fun run :: "call list \<Rightarrow> db \<Rightarrow> db" where
  "run [] d = d"
| "run (c # cs) d = run cs (snd (handle c d))"

section \<open>The invariant of a shipment record\<close>

text \<open>The history is not empty and ends with the status.\<close>

definition hist_ok :: "shipment \<Rightarrow> bool" where
  "hist_ok s = (history s \<noteq> [] \<and> entry_status (last (history s)) = status s)"

section \<open>Example data\<close>

text \<open>
  A tracking code written with a dotless i (U+0131, bytes C4 B1), which upper-cases to
  \<open>I\<close>, and an email written with the Kelvin sign (U+212A, bytes E2 84 AA), which
  lower-cases to \<open>k\<close>.
\<close>

definition dotless_code :: string where
  "dotless_code = ''abcdefgh'' @ [char_of (196 :: nat), char_of (177 :: nat)] @ ''j''"

definition kelvin_email :: string where
  "kelvin_email = [char_of (226 :: nat), char_of (132 :: nat), char_of (170 :: nat)] @ ''@b.com''"

text \<open>
  The bytes make \<open>nanoid(10)\<close> \<open>v1StGXr8z5\<close> and \<open>nanoid()\<close> \<open>V1StGXR8_Z5jdHi6B-myT\<close>.
\<close>

definition demo_env :: env where
  "demo_env =
     \<lparr>random_bytes = (\<lambda>n. if n = 10 then [56, 12, 38, 63, 45, 19, 60, 14, 59, 21]
                          else [28, 12, 38, 63, 45, 19, 30, 14, 44, 47, 21, 52, 5, 39, 61, 10,
                                36, 8, 7, 58, 11]),
      clock = (\<lambda>k. ''2024-01-01T00:00:00.000Z''),
      bcrypt_hash = (\<lambda>p. case p of JStr s \<Rightarrow> Some (''$2b$10$'' @ s) | _ \<Rightarrow> None),
      bcrypt_compare = (\<lambda>p h. case p of JStr s \<Rightarrow> Some (h = ''$2b$10$'' @ s) | _ \<Rightarrow> None),
      jwt_sign = (\<lambda>p. ''jwt.'' @ payload_id p),
      jwt_verify = (\<lambda>t. if t = ''jwt.u1''
                          then Some \<lparr>payload_id = ''u1'', payload_email = ''a@b.com''\<rparr>
                          else None),
      unicode_upper = (\<lambda>s. if s = dotless_code then ''ABCDEFGHIJ'' else s),
      unicode_lower = (\<lambda>s. if s = kelvin_email then ''k@b.com'' else s)\<rparr>"

definition no_body :: "string \<Rightarrow> jsval" where
  "no_body = (\<lambda>k. JUndefined)"

definition demo_shipment :: "string \<Rightarrow> string \<Rightarrow> string \<Rightarrow> shipment" where
  "demo_shipment code st own =
     \<lparr>shipment_id = ''id-'' @ code, tracking = code, createdAt = ''2024-01-01T00:00:00.000Z'',
      status = st, service = JStr ''Ground'', weight = JStr ''0.0'',
      toName = JStr ''Bob'', toAddress = JStr ''1 Rd'',
      history = [\<lparr>entry_status = st, at = ''2024-01-01T00:00:00.000Z''\<rparr>],
      owner = own\<rparr>"

definition demo_db :: db where
  "demo_db =
     \<lparr>users = [\<lparr>user_id = ''u1'', name = JStr ''Ann'', email = ''a@b.com'', password = ''$2b$10$x''\<rparr>],
      shipments = [demo_shipment ''AAAAAAAAAA'' ''In Transit'' ''u1'',
                   demo_shipment ''ABCDEFGHIJ'' ''Delivered'' ''u2'',
                   demo_shipment ''ZZZZZZZZZZ'' ''Label Created'' ''u1'']\<rparr>"

definition track_req :: "string \<Rightarrow> request" where
  "track_req code = \<lparr>authorization = None, params_tracking = code, body = no_body\<rparr>"

definition create_req :: request where
  "create_req =
     \<lparr>authorization = Some ''Bearer jwt.u1'', params_tracking = [],
      body = no_body(''toName'' := JStr ''Bob'', ''toAddress'' := JStr ''1 Rd'')\<rparr>"

definition blank_name_req :: request where
  "blank_name_req =
     \<lparr>authorization = Some ''Bearer jwt.u1'', params_tracking = [],
      body = no_body(''toName'' := JStr [], ''toAddress'' := JStr ''1 Rd'')\<rparr>"

definition demo_user :: payload where
  "demo_user = \<lparr>payload_id = ''u1'', payload_email = ''a@b.com''\<rparr>"

text \<open>Five advance requests for the code that \<open>demo_env\<close> draws, written in lower case.\<close>

definition five_advances :: "call list" where
  "five_advances = map (\<lambda>a. Advance a (track_req ''v1stgxr8z5''))
                     [demo_env, demo_env, demo_env, demo_env, demo_env]"




section \<open>Facts about the helpers\<close>

lemma upper_char_not_lower: "\<not> is_lower (upper_char c)"
proof (cases "is_lower c")
  case True
  define n where "n = (of_char c :: nat)"
  from True have n: "97 \<le> n" "n \<le> 122" by (simp_all add: is_lower_def n_def)
  then have "n - 32 < 256" by arith
  then have "(n - 32) mod 256 = n - 32" by (rule mod_less)
  moreover from n have "n - 32 < 97" by arith
  ultimately show ?thesis using True by (simp add: upper_char_def is_lower_def n_def)
next
  case False
  then show ?thesis by (simp add: upper_char_def)
qed

lemma upper_char_idem: "upper_char (upper_char c) = upper_char c"
  using upper_char_not_lower[of c] by (simp add: upper_char_def[of "upper_char c"])

lemma upper_char_ascii: "(of_char c :: nat) < 128 \<Longrightarrow> (of_char (upper_char c) :: nat) < 128"
proof (cases "is_lower c")
  case True
  define n where "n = (of_char c :: nat)"
  from True have n: "97 \<le> n" "n \<le> 122" by (simp_all add: is_lower_def n_def)
  then have "n - 32 < 256" by arith
  then have "(n - 32) mod 256 = n - 32" by (rule mod_less)
  moreover from n have "n - 32 < 128" by arith
  ultimately show ?thesis using True by (simp add: upper_char_def n_def)
next
  case False
  assume "(of_char c :: nat) < 128"
  with False show ?thesis by (simp add: upper_char_def)
qed

lemma is_ascii_map_upper: "is_ascii s \<Longrightarrow> is_ascii (map upper_char s)"
  by (simp add: is_ascii_def list_all_iff upper_char_ascii)

lemma toUpperCase_ascii: "is_ascii s \<Longrightarrow> toUpperCase e s = map upper_char s"
  by (simp add: toUpperCase_def)

text \<open>On ASCII strings upper-casing is idempotent, whatever the engine.\<close>

lemma toUpperCase_idem_ascii:
  "is_ascii s \<Longrightarrow> toUpperCase e (toUpperCase e s) = toUpperCase e s"
  by (simp add: toUpperCase_ascii is_ascii_map_upper upper_char_idem)

lemma urlAlphabet_ascii: "length urlAlphabet = 64" "is_ascii urlAlphabet"
  by (simp_all add: urlAlphabet_def is_ascii_def)

lemma is_ascii_nanoid: "is_ascii (nanoid e n)"
proof -
  have "(of_char (urlAlphabet ! (b mod 64)) :: nat) < 128" for b
  proof -
    have "urlAlphabet ! (b mod 64) \<in> set urlAlphabet"
      by (rule nth_mem) (simp add: urlAlphabet_ascii)
    with urlAlphabet_ascii(2) show ?thesis by (simp add: is_ascii_def list_all_iff)
  qed
  then show ?thesis by (simp add: nanoid_def is_ascii_def list_all_iff)
qed

text \<open>A code that \<open>nanoid\<close> draws keeps its length and loses its lower-case letters.\<close>

lemma length_upper_nanoid: "length (toUpperCase e (nanoid e n)) = length (nanoid e n)"
  by (simp add: toUpperCase_ascii is_ascii_nanoid)

lemma upper_nanoid_no_lower: "c \<in> set (toUpperCase e (nanoid e n)) \<Longrightarrow> \<not> is_lower c"
  by (auto simp: toUpperCase_ascii is_ascii_nanoid upper_char_not_lower)

lemma find_ref_None: "find_ref P xs = None \<longleftrightarrow> (\<forall>x\<in>set xs. \<not> P x)"
  by (induction xs) auto

lemma find_ref_Some:
  "find_ref P xs = Some i \<longleftrightarrow> i < length xs \<and> P (xs ! i) \<and> (\<forall>j<i. \<not> P (xs ! j))"
proof (induction xs arbitrary: i)
  case Nil
  then show ?case by simp
next
  case (Cons x xs)
  show ?case
  proof (cases "P x")
    case True
    then show ?thesis by (cases i) auto
  next
    case False
    show ?thesis
    proof (cases i)
      case 0
      with False show ?thesis by auto
    next
      case (Suc k)
      have "(\<forall>j<Suc k. \<not> P ((x # xs) ! j)) \<longleftrightarrow> (\<forall>j<k. \<not> P (xs ! j))"
        using False by (auto simp: less_Suc_eq_0_disj)
      with False Suc Cons.IH[of k] show ?thesis by auto
    qed
  qed
qed

lemma find_find_ref: "find P xs = map_option (\<lambda>i. xs ! i) (find_ref P xs)"
  by (induction xs) (auto simp: option.map_comp comp_def)

lemma find_ref_cong_map:
  "map f xs = map f ys \<Longrightarrow> find_ref (\<lambda>x. P (f x)) xs = find_ref (\<lambda>x. P (f x)) ys"
proof (induction xs arbitrary: ys)
  case Nil
  then show ?case by simp
next
  case (Cons x xs)
  then obtain y ys' where "ys = y # ys'" "f x = f y" "map f xs = map f ys'"
    by (cases ys) auto
  with Cons.IH[of ys'] show ?case by simp
qed

lemma find_ref_append_new:
  "\<forall>x\<in>set xs. \<not> P x \<Longrightarrow> P y \<Longrightarrow> find_ref P (xs @ [y]) = Some (length xs)"
  by (induction xs) auto

text \<open>The stage list, stage by stage.\<close>

lemma indexOf_stages:
  "indexOf nextStatuses ''Label Created'' = 0"
  "indexOf nextStatuses ''Picked Up'' = 1"
  "indexOf nextStatuses ''In Transit'' = 2"
  "indexOf nextStatuses ''Out for Delivery'' = 3"
  "indexOf nextStatuses ''Delivered'' = 4"
  by (simp_all add: nextStatuses_def)

lemma next_status_stages:
  "next_status ''Label Created'' = ''Picked Up''"
  "next_status ''Picked Up'' = ''In Transit''"
  "next_status ''In Transit'' = ''Out for Delivery''"
  "next_status ''Out for Delivery'' = ''Delivered''"
  "next_status ''Delivered'' = ''Delivered''"
  by (simp_all add: nextStatuses_def next_status_def)

lemma in_stages:
  "c \<in> set nextStatuses \<longleftrightarrow>
     c = ''Label Created'' \<or> c = ''Picked Up'' \<or> c = ''In Transit''
     \<or> c = ''Out for Delivery'' \<or> c = ''Delivered''"
  by (simp add: nextStatuses_def)

lemma indexOf_range: "- 1 \<le> indexOf xs v \<and> indexOf xs v < int (length xs)"
  by (induction xs) (auto simp: Let_def)

lemma next_status_in_stages: "next_status c \<in> set nextStatuses"
proof -
  have "- 1 \<le> indexOf nextStatuses c" using indexOf_range[of nextStatuses c] by simp
  then have "nat (min (indexOf nextStatuses c + 1) (int (length nextStatuses) - 1)) < length nextStatuses"
    by (simp add: nextStatuses_def)
  then show ?thesis unfolding next_status_def Let_def by (rule nth_mem)
qed

text \<open>What \<open>advance\<close> does, by the outcome of its search.\<close>

lemma advance_not_found:
  "find_ref (\<lambda>x. tracking x = toUpperCase e (params_tracking req)) (shipments d) = None
   \<Longrightarrow> advance e req d = (Inl (HttpError 404 ''Not found''), d)"
  by (simp add: advance_def)

lemma advance_found:
  "find_ref (\<lambda>x. tracking x = toUpperCase e (params_tracking req)) (shipments d) = Some i
   \<Longrightarrow> advance e req d =
         (Inr (ShipmentReply (stepped (clock e 0) (shipments d ! i))),
          d\<lparr>shipments := (shipments d)[i := stepped (clock e 0) (shipments d ! i)]\<rparr>)"
  by (simp add: advance_def Let_def)

lemma stepped_fields:
  "status (stepped now s) = next_status (status s)"
  "history (stepped now s) = history s @ [\<lparr>entry_status = next_status (status s), at = now\<rparr>]"
  "tracking (stepped now s) = tracking s"
  "owner (stepped now s) = owner s"
  by (simp_all add: stepped_def Let_def)


lemma demo_nanoid:
  "nanoid demo_env 10 = ''v1StGXr8z5''"
  "nanoid demo_env 21 = ''V1StGXR8_Z5jdHi6B-myT''"
  by code_simp+

lemma demo_upper:
  "toUpperCase demo_env ''abcdefghij'' = ''ABCDEFGHIJ''"
  "toUpperCase demo_env ''ABCDEFGHIJ'' = ''ABCDEFGHIJ''"
  "toUpperCase demo_env ''nosuchcode'' = ''NOSUCHCODE''"
  "toUpperCase demo_env ''v1StGXr8z5'' = ''V1STGXR8Z5''"
  "toUpperCase demo_env ''v1stgxr8z5'' = ''V1STGXR8Z5''"
  "toUpperCase demo_env dotless_code = ''ABCDEFGHIJ''"
  by code_simp+


section \<open>Advancing a shipment\<close>

text \<open>
  C1. \<open>advance\<close> answers 404 \<open>Not found\<close> when no stored shipment carries the upper-cased
  tracking code. Otherwise it succeeds, and for the first shipment that carries the code
  (position \<open>i\<close>) the new status is \<open>nextStatuses[min(indexOf(status) + 1, 4)]\<close>, the
  history gains one entry with that new status, and the reply is the updated shipment. At
  \<open>Delivered\<close> the status stays \<open>Delivered\<close> and one more \<open>Delivered\<close> entry is appended.
\<close>

theorem advance_sets_next_stage:
  "((\<forall>x\<in>set (shipments d). tracking x \<noteq> toUpperCase e (params_tracking req))
      \<longrightarrow> fst (advance e req d) = Inl (HttpError 404 ''Not found''))
   \<and> ((\<exists>x\<in>set (shipments d). tracking x = toUpperCase e (params_tracking req))
      \<longrightarrow> (\<exists>s'. fst (advance e req d) = Inr (ShipmentReply s')))
   \<and> (i < length (shipments d)
        \<and> tracking (shipments d ! i) = toUpperCase e (params_tracking req)
        \<and> (\<forall>j<i. tracking (shipments d ! j) \<noteq> toUpperCase e (params_tracking req))
      \<longrightarrow> (let s = shipments d ! i; s' = shipments (snd (advance e req d)) ! i
           in fst (advance e req d) = Inr (ShipmentReply s') \<and>
              status s' = nextStatuses ! nat (min (indexOf nextStatuses (status s) + 1) 4) \<and>
              history s' = history s @ [\<lparr>entry_status = status s', at = clock e 0\<rparr>] \<and>
              (status s = ''Delivered'' \<longrightarrow>
                 status s' = ''Delivered'' \<and>
                 history s' = history s @ [\<lparr>entry_status = ''Delivered'', at = clock e 0\<rparr>])))"
  (is "?none \<and> ?some \<and> ?first")
proof (intro conjI)
  show ?none
    using advance_not_found[where e = e and req = req and d = d] by (simp add: find_ref_None)
next
  show ?some
  proof
    assume "\<exists>x\<in>set (shipments d). tracking x = toUpperCase e (params_tracking req)"
    then obtain k where
      "find_ref (\<lambda>x. tracking x = toUpperCase e (params_tracking req)) (shipments d) = Some k"
      using find_ref_None[of "\<lambda>x. tracking x = toUpperCase e (params_tracking req)" "shipments d"]
      by (cases "find_ref (\<lambda>x. tracking x = toUpperCase e (params_tracking req)) (shipments d)") auto
    then show "\<exists>s'. fst (advance e req d) = Inr (ShipmentReply s')"
      by (simp add: advance_found)
  qed
next
  show ?first
  proof
    assume a: "i < length (shipments d)
        \<and> tracking (shipments d ! i) = toUpperCase e (params_tracking req)
        \<and> (\<forall>j<i. tracking (shipments d ! j) \<noteq> toUpperCase e (params_tracking req))"
    then have found:
      "find_ref (\<lambda>x. tracking x = toUpperCase e (params_tracking req)) (shipments d) = Some i"
      by (simp add: find_ref_Some)
    have len: "int (length nextStatuses) - 1 = 4" by (simp add: nextStatuses_def)
    have st: "next_status c = nextStatuses ! nat (min (indexOf nextStatuses c + 1) 4)" for c
      by (simp add: next_status_def Let_def len)
    have new: "shipments (snd (advance e req d)) ! i = stepped (clock e 0) (shipments d ! i)"
      using a by (simp add: advance_found[OF found])
    have reply: "fst (advance e req d) = Inr (ShipmentReply (stepped (clock e 0) (shipments d ! i)))"
      by (simp add: advance_found[OF found])
    show "let s = shipments d ! i; s' = shipments (snd (advance e req d)) ! i
           in fst (advance e req d) = Inr (ShipmentReply s') \<and>
              status s' = nextStatuses ! nat (min (indexOf nextStatuses (status s) + 1) 4) \<and>
              history s' = history s @ [\<lparr>entry_status = status s', at = clock e 0\<rparr>] \<and>
              (status s = ''Delivered'' \<longrightarrow>
                 status s' = ''Delivered'' \<and>
                 history s' = history s @ [\<lparr>entry_status = ''Delivered'', at = clock e 0\<rparr>])"
      unfolding Let_def new reply stepped_fields
      using st next_status_stages(5) by simp
  qed
qed


lemma demo_db_trackings:
  "map tracking (shipments demo_db) = [''AAAAAAAAAA'', ''ABCDEFGHIJ'', ''ZZZZZZZZZZ'']"
  by (simp add: demo_db_def demo_shipment_def)

theorem advance_sets_next_stage_witness:
  "map tracking (shipments demo_db) = [''AAAAAAAAAA'', ''ABCDEFGHIJ'', ''ZZZZZZZZZZ'']
   \<and> toUpperCase demo_env (params_tracking (track_req dotless_code)) = ''ABCDEFGHIJ''
   \<and> status (shipments demo_db ! 1) = ''Delivered''
   \<and> status (shipments (snd (advance demo_env (track_req dotless_code) demo_db)) ! 1) = ''Delivered''
   \<and> history (shipments (snd (advance demo_env (track_req dotless_code) demo_db)) ! 1)
       = history (shipments demo_db ! 1) @ [\<lparr>entry_status = ''Delivered'', at = clock demo_env 0\<rparr>]
   \<and> toUpperCase demo_env (params_tracking (track_req ''nosuchcode'')) = ''NOSUCHCODE''
   \<and> fst (advance demo_env (track_req ''nosuchcode'') demo_db) = Inl (HttpError 404 ''Not found'')"
proof -
  have h: "1 < length (shipments demo_db)
    \<and> tracking (shipments demo_db ! 1) = toUpperCase demo_env (params_tracking (track_req dotless_code))
    \<and> (\<forall>j<1. tracking (shipments demo_db ! j) \<noteq> toUpperCase demo_env (params_tracking (track_req dotless_code)))"
    by (simp add: demo_db_def demo_shipment_def track_req_def demo_upper)
  have del: "status (shipments demo_db ! 1) = ''Delivered''"
    by (simp add: demo_db_def demo_shipment_def)
  have none: "\<forall>x\<in>set (shipments demo_db). tracking x \<noteq> toUpperCase demo_env (params_tracking (track_req ''nosuchcode''))"
    by (simp add: demo_db_def demo_shipment_def track_req_def demo_upper)
  from advance_sets_next_stage[where d = demo_db and req = "track_req dotless_code" and e = demo_env and i = 1] h del
  have "status (shipments (snd (advance demo_env (track_req dotless_code) demo_db)) ! 1) = ''Delivered''"
    and "history (shipments (snd (advance demo_env (track_req dotless_code) demo_db)) ! 1)
       = history (shipments demo_db ! 1) @ [\<lparr>entry_status = ''Delivered'', at = clock demo_env 0\<rparr>]"
    by (auto simp: Let_def)
  moreover from advance_sets_next_stage[where d = demo_db and req = "track_req ''nosuchcode''" and e = demo_env] none
  have "fst (advance demo_env (track_req ''nosuchcode'') demo_db) = Inl (HttpError 404 ''Not found'')"
    by blast
  ultimately show ?thesis
    using del by (simp add: demo_db_trackings track_req_def demo_upper)
qed

section \<open>Looking a shipment up\<close>

lemma lookup_by_ref:
  "lookup e req d =
     (case find_ref (\<lambda>x. tracking x = toUpperCase e (params_tracking req)) (shipments d) of
        None \<Rightarrow> (Inl (HttpError 404 ''Not found''), d)
      | Some i \<Rightarrow> (Inr (ShipmentReply (shipments d ! i)), d))"
  by (simp add: lookup_def find_find_ref split: option.splits)

text \<open>
  C8. \<open>lookup\<close> answers 404 \<open>Not found\<close> exactly when no stored shipment carries the
  upper-cased code, and otherwise replies with the first stored shipment that carries it;
  there is no third outcome. The answer does not depend on the \<open>Authorization\<close> header,
  nor on who owns the shipment, and the store is left as it was.
\<close>

theorem lookup_found_or_404:
  "((\<forall>x\<in>set (shipments d). tracking x \<noteq> toUpperCase e (params_tracking req))
      \<longrightarrow> lookup e req d = (Inl (HttpError 404 ''Not found''), d))
   \<and> (i < length (shipments d)
        \<and> tracking (shipments d ! i) = toUpperCase e (params_tracking req)
        \<and> (\<forall>j<i. tracking (shipments d ! j) \<noteq> toUpperCase e (params_tracking req))
      \<longrightarrow> lookup e req d = (Inr (ShipmentReply (shipments d ! i)), d))
   \<and> (fst (lookup e req d) = Inl (HttpError 404 ''Not found'')
        \<or> (\<exists>s. fst (lookup e req d) = Inr (ShipmentReply s) \<and> s \<in> set (shipments d)
                \<and> tracking s = toUpperCase e (params_tracking req)))
   \<and> lookup e (req\<lparr>authorization := a\<rparr>) d = lookup e req d
   \<and> snd (lookup e req d) = d"
  (is "?none \<and> ?first \<and> ?either \<and> ?noauth \<and> ?same")
proof (intro conjI)
  show ?none
    by (simp add: lookup_by_ref find_ref_None[symmetric])
  show ?first
  proof
    assume "i < length (shipments d)
        \<and> tracking (shipments d ! i) = toUpperCase e (params_tracking req)
        \<and> (\<forall>j<i. tracking (shipments d ! j) \<noteq> toUpperCase e (params_tracking req))"
    then have "find_ref (\<lambda>x. tracking x = toUpperCase e (params_tracking req)) (shipments d) = Some i"
      by (simp add: find_ref_Some)
    then show "lookup e req d = (Inr (ShipmentReply (shipments d ! i)), d)"
      by (simp add: lookup_by_ref)
  qed
  show ?either
  proof (cases "find_ref (\<lambda>x. tracking x = toUpperCase e (params_tracking req)) (shipments d)")
    case None
    then show ?thesis by (simp add: lookup_by_ref)
  next
    case (Some k)
    then have "k < length (shipments d)"
      and "tracking (shipments d ! k) = toUpperCase e (params_tracking req)"
      by (simp_all add: find_ref_Some)
    with Some show ?thesis by (simp add: lookup_by_ref)
  qed
  show ?noauth by (simp add: lookup_def)
  show ?same by (simp add: lookup_def split: option.splits)
qed

theorem lookup_found_or_404_witness:
  "map tracking (shipments demo_db) = [''AAAAAAAAAA'', ''ABCDEFGHIJ'', ''ZZZZZZZZZZ'']
   \<and> toUpperCase demo_env (params_tracking (track_req ''nosuchcode'')) = ''NOSUCHCODE''
   \<and> lookup demo_env (track_req ''nosuchcode'') demo_db = (Inl (HttpError 404 ''Not found''), demo_db)
   \<and> toUpperCase demo_env (params_tracking (track_req dotless_code)) = ''ABCDEFGHIJ''
   \<and> authorization (track_req dotless_code) = None
   \<and> owner (shipments demo_db ! 1) = ''u2''
   \<and> lookup demo_env (track_req dotless_code) demo_db = (Inr (ShipmentReply (shipments demo_db ! 1)), demo_db)"
proof -
  have none: "\<forall>x\<in>set (shipments demo_db). tracking x \<noteq> toUpperCase demo_env (params_tracking (track_req ''nosuchcode''))"
    by (simp add: demo_db_def demo_shipment_def track_req_def demo_upper)
  have h: "1 < length (shipments demo_db)
    \<and> tracking (shipments demo_db ! 1) = toUpperCase demo_env (params_tracking (track_req dotless_code))
    \<and> (\<forall>j<1. tracking (shipments demo_db ! j) \<noteq> toUpperCase demo_env (params_tracking (track_req dotless_code)))"
    by (simp add: demo_db_def demo_shipment_def track_req_def demo_upper)
  from lookup_found_or_404[where d = demo_db and req = "track_req ''nosuchcode''" and e = demo_env] none
  have "lookup demo_env (track_req ''nosuchcode'') demo_db = (Inl (HttpError 404 ''Not found''), demo_db)"
    by blast
  moreover from lookup_found_or_404[where d = demo_db and req = "track_req dotless_code" and e = demo_env and i = 1] h
  have "lookup demo_env (track_req dotless_code) demo_db = (Inr (ShipmentReply (shipments demo_db ! 1)), demo_db)"
    by blast
  moreover have "owner (shipments demo_db ! 1) = ''u2''"
    by (simp add: demo_db_def demo_shipment_def)
  ultimately show ?thesis
    by (simp add: demo_db_trackings track_req_def demo_upper)
qed

section \<open>The tracking code is read without regard to case\<close>

text \<open>
  C9. \<open>lookup\<close> and \<open>advance\<close> upper-case the code they are given before comparing it
  with the stored codes, so a code and its upper-cased form give the same reply and the
  same store. This holds for every ASCII code. For a code that is not ASCII it holds when
  upper-casing the engine's result gives that result back, as JavaScript's \<open>toUpperCase\<close>
  does: its result holds no character that upper-casing changes.
\<close>

theorem tracking_case_insensitive:
  assumes "is_ascii (params_tracking req)
           \<or> toUpperCase e (toUpperCase e (params_tracking req)) = toUpperCase e (params_tracking req)"
  shows "lookup e (req\<lparr>params_tracking := toUpperCase e (params_tracking req)\<rparr>) d = lookup e req d
         \<and> advance e (req\<lparr>params_tracking := toUpperCase e (params_tracking req)\<rparr>) d
             = advance e req d"
proof -
  from assms
  have "toUpperCase e (toUpperCase e (params_tracking req)) = toUpperCase e (params_tracking req)"
    using toUpperCase_idem_ascii[of "params_tracking req" e] by blast
  then show ?thesis by (simp add: lookup_def advance_def)
qed

theorem tracking_case_insensitive_witness:
  "is_ascii (params_tracking (track_req ''abcdefghij''))
   \<and> toUpperCase demo_env (params_tracking (track_req ''abcdefghij'')) = ''ABCDEFGHIJ''
   \<and> toUpperCase demo_env ''ABCDEFGHIJ'' = ''ABCDEFGHIJ''
   \<and> lookup demo_env (track_req ''ABCDEFGHIJ'') demo_db = lookup demo_env (track_req ''abcdefghij'') demo_db
   \<and> advance demo_env (track_req ''ABCDEFGHIJ'') demo_db
       = advance demo_env (track_req ''abcdefghij'') demo_db
   \<and> toUpperCase demo_env (params_tracking (track_req dotless_code)) = ''ABCDEFGHIJ''
   \<and> lookup demo_env (track_req ''ABCDEFGHIJ'') demo_db = lookup demo_env (track_req dotless_code) demo_db
   \<and> advance demo_env (track_req ''ABCDEFGHIJ'') demo_db
       = advance demo_env (track_req dotless_code) demo_db
   \<and> fst (lookup demo_env (track_req dotless_code) demo_db) = Inr (ShipmentReply (shipments demo_db ! 1))"
proof -
  have ascii: "is_ascii (params_tracking (track_req ''abcdefghij''))"
    by (simp add: track_req_def is_ascii_def)
  have idem: "toUpperCase demo_env (toUpperCase demo_env (params_tracking (track_req dotless_code)))
                = toUpperCase demo_env (params_tracking (track_req dotless_code))"
    by (simp add: track_req_def demo_upper)
  have up: "(track_req c)\<lparr>params_tracking := toUpperCase demo_env (params_tracking (track_req c))\<rparr>
        = track_req ''ABCDEFGHIJ''"
    if "toUpperCase demo_env c = ''ABCDEFGHIJ''" for c
    using that by (simp add: track_req_def)
  from tracking_case_insensitive[OF disjI1[OF ascii], of demo_env demo_db] up[OF demo_upper(1)]
  have plain: "lookup demo_env (track_req ''ABCDEFGHIJ'') demo_db
                 = lookup demo_env (track_req ''abcdefghij'') demo_db"
      "advance demo_env (track_req ''ABCDEFGHIJ'') demo_db
                 = advance demo_env (track_req ''abcdefghij'') demo_db"
    by simp_all
  from tracking_case_insensitive[OF disjI2[OF idem], of demo_db] up[OF demo_upper(6)]
  have dotless: "lookup demo_env (track_req ''ABCDEFGHIJ'') demo_db
                 = lookup demo_env (track_req dotless_code) demo_db"
      "advance demo_env (track_req ''ABCDEFGHIJ'') demo_db
                 = advance demo_env (track_req dotless_code) demo_db"
    by simp_all
  have "fst (lookup demo_env (track_req dotless_code) demo_db) = Inr (ShipmentReply (shipments demo_db ! 1))"
    by (simp add: lookup_def track_req_def demo_upper demo_db_def demo_shipment_def)
  with plain dotless ascii show ?thesis by (simp add: track_req_def demo_upper)
qed

section \<open>What advance leaves alone\<close>

text \<open>
  C10. \<open>advance\<close> never touches the users, never changes the number of shipments, and
  leaves the whole store as it was when it fails (which it does only with 404). When it
  succeeds, every shipment other than the first one carrying the code is unchanged, and
  of that one only \<open>status\<close> and \<open>history\<close> change.
\<close>

theorem advance_frame:
  "users (snd (advance e req d)) = users d
   \<and> length (shipments (snd (advance e req d))) = length (shipments d)
   \<and> ((\<forall>x\<in>set (shipments d). tracking x \<noteq> toUpperCase e (params_tracking req))
        \<longrightarrow> snd (advance e req d) = d)
   \<and> (fst (advance e req d) = Inl err \<longrightarrow> snd (advance e req d) = d)
   \<and> (i < length (shipments d)
        \<and> tracking (shipments d ! i) = toUpperCase e (params_tracking req)
        \<and> (\<forall>j<i. tracking (shipments d ! j) \<noteq> toUpperCase e (params_tracking req))
      \<longrightarrow> (\<forall>j<length (shipments d). j \<noteq> i
              \<longrightarrow> shipments (snd (advance e req d)) ! j = shipments d ! j)
          \<and> (shipments (snd (advance e req d)) ! i)
               \<lparr>status := status (shipments d ! i), history := history (shipments d ! i)\<rparr>
             = shipments d ! i)"
  (is "?users \<and> ?len \<and> ?none \<and> ?failed \<and> ?first")
proof (intro conjI)
  show ?users by (simp add: advance_def Let_def split: option.splits)
  show ?len by (simp add: advance_def Let_def split: option.splits)
  show ?none by (simp add: advance_not_found find_ref_None[symmetric])
  show ?failed by (simp add: advance_def Let_def split: option.splits)
  show ?first
  proof
    assume a: "i < length (shipments d)
        \<and> tracking (shipments d ! i) = toUpperCase e (params_tracking req)
        \<and> (\<forall>j<i. tracking (shipments d ! j) \<noteq> toUpperCase e (params_tracking req))"
    then have found:
      "find_ref (\<lambda>x. tracking x = toUpperCase e (params_tracking req)) (shipments d) = Some i"
      by (simp add: find_ref_Some)
    show "(\<forall>j<length (shipments d). j \<noteq> i
              \<longrightarrow> shipments (snd (advance e req d)) ! j = shipments d ! j)
          \<and> (shipments (snd (advance e req d)) ! i)
               \<lparr>status := status (shipments d ! i), history := history (shipments d ! i)\<rparr>
             = shipments d ! i"
      using a by (simp add: advance_found[OF found] stepped_def Let_def)
  qed
qed

theorem advance_frame_witness:
  "map tracking (shipments demo_db) = [''AAAAAAAAAA'', ''ABCDEFGHIJ'', ''ZZZZZZZZZZ'']
   \<and> toUpperCase demo_env (params_tracking (track_req dotless_code)) = ''ABCDEFGHIJ''
   \<and> users (snd (advance demo_env (track_req dotless_code) demo_db)) = users demo_db
   \<and> shipments (snd (advance demo_env (track_req dotless_code) demo_db)) ! 0 = shipments demo_db ! 0
   \<and> shipments (snd (advance demo_env (track_req dotless_code) demo_db)) ! 2 = shipments demo_db ! 2
   \<and> shipments (snd (advance demo_env (track_req dotless_code) demo_db)) ! 1 \<noteq> shipments demo_db ! 1
   \<and> toUpperCase demo_env (params_tracking (track_req ''nosuchcode'')) = ''NOSUCHCODE''
   \<and> snd (advance demo_env (track_req ''nosuchcode'') demo_db) = demo_db"
proof -
  have none: "\<forall>x\<in>set (shipments demo_db). tracking x \<noteq> toUpperCase demo_env (params_tracking (track_req ''nosuchcode''))"
    by (simp add: demo_db_def demo_shipment_def track_req_def demo_upper)
  have h: "1 < length (shipments demo_db)
    \<and> tracking (shipments demo_db ! 1) = toUpperCase demo_env (params_tracking (track_req dotless_code))
    \<and> (\<forall>j<1. tracking (shipments demo_db ! j) \<noteq> toUpperCase demo_env (params_tracking (track_req dotless_code)))"
    by (simp add: demo_db_def demo_shipment_def track_req_def demo_upper)
  have len: "length (shipments demo_db) = 3" by (simp add: demo_db_def)
  note fr = advance_frame[where e = demo_env and req = "track_req dotless_code" and d = demo_db and i = 1]
  from fr have "users (snd (advance demo_env (track_req dotless_code) demo_db)) = users demo_db"
    by blast
  moreover from fr h have others: "\<forall>j<length (shipments demo_db). j \<noteq> 1
      \<longrightarrow> shipments (snd (advance demo_env (track_req dotless_code) demo_db)) ! j = shipments demo_db ! j"
    by blast
  from others len
  have "shipments (snd (advance demo_env (track_req dotless_code) demo_db)) ! 0 = shipments demo_db ! 0"
    and "shipments (snd (advance demo_env (track_req dotless_code) demo_db)) ! 2 = shipments demo_db ! 2"
    by simp_all
  moreover have "shipments (snd (advance demo_env (track_req dotless_code) demo_db)) ! 1 \<noteq> shipments demo_db ! 1"
    by (simp add: advance_def track_req_def demo_upper demo_db_def demo_shipment_def stepped_def Let_def)
  moreover from advance_frame[where e = demo_env and req = "track_req ''nosuchcode''" and d = demo_db] none
  have "snd (advance demo_env (track_req ''nosuchcode'') demo_db) = demo_db"
    by blast
  ultimately show ?thesis
    by (simp add: demo_db_trackings track_req_def demo_upper)
qed

section \<open>Creating a shipment\<close>

text \<open>
  C6. \<open>create\<close> fails, with 400 \<open>toName & toAddress required\<close> and with nothing else,
  exactly when \<open>toName\<close> or \<open>toAddress\<close> is absent as the guard \<open>!toName || !toAddress\<close>
  reads it (missing from the body, or null, empty, zero or false). Otherwise it stores and
  returns a new shipment with status \<open>Label Created\<close> and a history of exactly one entry
  with that status; its tracking code is the upper-cased \<open>nanoid(10)\<close>, so it has no
  lower-case letter and, \<open>nanoid(10)\<close> being ten characters long, is ten characters long.
\<close>

theorem create_validates_and_labels:
  "(fst (create e u req d) = Inl (HttpError 400 ''toName & toAddress required'')
      \<longleftrightarrow> falsy (body req ''toName'') \<or> falsy (body req ''toAddress''))
   \<and> (fst (create e u req d) = Inl err \<longrightarrow> err = HttpError 400 ''toName & toAddress required'')
   \<and> (\<not> falsy (body req ''toName'') \<and> \<not> falsy (body req ''toAddress'')
        \<and> length (nanoid e 10) = 10
      \<longrightarrow> (\<exists>s. create e u req d = (Inr (ShipmentReply s), d\<lparr>shipments := shipments d @ [s]\<rparr>)
               \<and> status s = ''Label Created''
               \<and> map entry_status (history s) = [''Label Created'']
               \<and> owner s = payload_id u
               \<and> length (tracking s) = 10
               \<and> (\<forall>c\<in>set (tracking s). \<not> is_lower c)))"
  by (auto simp: create_def Let_def length_upper_nanoid upper_nanoid_no_lower)

theorem create_validates_and_labels_witness:
  "\<not> falsy (body create_req ''toName'') \<and> \<not> falsy (body create_req ''toAddress'')
   \<and> length (nanoid demo_env 10) = 10
   \<and> fst (create demo_env demo_user create_req demo_db)
       \<noteq> Inl (HttpError 400 ''toName & toAddress required'')
   \<and> tracking (last (shipments (snd (create demo_env demo_user create_req demo_db)))) = ''V1STGXR8Z5''
   \<and> status (last (shipments (snd (create demo_env demo_user create_req demo_db)))) = ''Label Created''
   \<and> falsy (body blank_name_req ''toName'')
   \<and> fst (create demo_env demo_user blank_name_req demo_db)
       = Inl (HttpError 400 ''toName & toAddress required'')"
proof -
  have h: "\<not> falsy (body create_req ''toName'') \<and> \<not> falsy (body create_req ''toAddress'')
      \<and> length (nanoid demo_env 10) = 10"
    by (simp add: create_req_def no_body_def falsy_def demo_nanoid)
  have b: "falsy (body blank_name_req ''toName'')"
    by (simp add: blank_name_req_def no_body_def falsy_def)
  from create_validates_and_labels[of demo_env demo_user create_req demo_db] h
  have ok: "fst (create demo_env demo_user create_req demo_db)
       \<noteq> Inl (HttpError 400 ''toName & toAddress required'')"
    by blast
  from create_validates_and_labels[of demo_env demo_user create_req demo_db] h
  obtain s where s: "create demo_env demo_user create_req demo_db
        = (Inr (ShipmentReply s), demo_db\<lparr>shipments := shipments demo_db @ [s]\<rparr>)"
      "status s = ''Label Created''"
    by blast
  have "tracking (last (shipments (snd (create demo_env demo_user create_req demo_db)))) = ''V1STGXR8Z5''"
    using h by (simp add: create_def Let_def demo_nanoid demo_upper)
  moreover from s
  have "status (last (shipments (snd (create demo_env demo_user create_req demo_db)))) = ''Label Created''"
    by simp
  moreover from create_validates_and_labels[of demo_env demo_user blank_name_req demo_db] b
  have "fst (create demo_env demo_user blank_name_req demo_db)
       = Inl (HttpError 400 ''toName & toAddress required'')"
    by blast
  ultimately show ?thesis using h b ok by blast
qed

section \<open>Listing a user's shipments\<close>

text \<open>
  C7. When \<open>authMiddleware\<close> accepts the request for user \<open>u\<close>, \<open>GET /api/my-shipments\<close>
  replies with a list that holds a shipment exactly when it is stored and its owner is
  \<open>u\<close>'s id, as often as it is stored, and in storage order: the list is the stored
  sequence restricted to the positions whose owner is \<open>u\<close>. The store is unchanged.
\<close>

theorem my_shipments_lists_own:
  assumes "authMiddleware e req = Inr u"
  shows "\<exists>list. with_auth e req d (\<lambda>u. my_shipments u d) = (Inr (ShipmentsReply list), d)
           \<and> (\<forall>s. s \<in> set list \<longleftrightarrow> s \<in> set (shipments d) \<and> owner s = payload_id u)
           \<and> (\<forall>s. count_list list s
                   = (if owner s = payload_id u then count_list (shipments d) s else 0))
           \<and> subseq list (shipments d)
           \<and> list = nths (shipments d)
                      {i. i < length (shipments d) \<and> owner (shipments d ! i) = payload_id u}"
proof -
  let ?list = "filter (\<lambda>s. owner s = payload_id u) (shipments d)"
  have "with_auth e req d (\<lambda>u. my_shipments u d) = (Inr (ShipmentsReply ?list), d)"
    using assms by (simp add: with_auth_def my_shipments_def)
  moreover have "\<forall>s. s \<in> set ?list \<longleftrightarrow> s \<in> set (shipments d) \<and> owner s = payload_id u"
    by auto
  moreover have "count_list (filter P xs) s = (if P s then count_list xs s else 0)"
    for P and xs :: "shipment list" and s
    by (induction xs) auto
  then have "\<forall>s. count_list ?list s
                   = (if owner s = payload_id u then count_list (shipments d) s else 0)"
    by simp
  moreover have "subseq ?list (shipments d)" by simp
  moreover have "?list = nths (shipments d)
                      {i. i < length (shipments d) \<and> owner (shipments d ! i) = payload_id u}"
    by (rule filter_eq_nths)
  ultimately show ?thesis by blast
qed

theorem my_shipments_lists_own_witness:
  "authMiddleware demo_env create_req = Inr demo_user
   \<and> map owner (shipments demo_db) = [''u1'', ''u2'', ''u1'']
   \<and> with_auth demo_env create_req demo_db (\<lambda>u. my_shipments u demo_db)
       = (Inr (ShipmentsReply [shipments demo_db ! 0, shipments demo_db ! 2]), demo_db)"
proof -
  have a: "authMiddleware demo_env create_req = Inr demo_user"
    by (simp add: authMiddleware_def create_req_def demo_env_def demo_user_def at_index_def)
  have n: "nths (shipments demo_db)
             {i. i < length (shipments demo_db) \<and> owner (shipments demo_db ! i) = payload_id demo_user}
           = [shipments demo_db ! 0, shipments demo_db ! 2]"
    by (simp add: demo_db_def demo_shipment_def demo_user_def nths_Cons less_Suc_eq_0_disj)
  from my_shipments_lists_own[OF a, of demo_db] n
  have "with_auth demo_env create_req demo_db (\<lambda>u. my_shipments u demo_db)
       = (Inr (ShipmentsReply [shipments demo_db ! 0, shipments demo_db ! 2]), demo_db)"
    by auto
  moreover have "map owner (shipments demo_db) = [''u1'', ''u2'', ''u1'']"
    by (simp add: demo_db_def demo_shipment_def)
  ultimately show ?thesis using a by simp
qed

section \<open>Invariants of the store\<close>

lemma hist_ok_stepped: "hist_ok (stepped now s)"
  by (simp add: hist_ok_def stepped_fields)

lemma hist_ok_create:
  "create e u req d = (Inr (ShipmentReply s), d') \<Longrightarrow> hist_ok s"
  by (auto simp: create_def Let_def hist_ok_def split: if_splits)

lemma create_shipments:
  "shipments (snd (create e u req d)) = shipments d
   \<or> (\<exists>s. fst (create e u req d) = Inr (ShipmentReply s)
          \<and> shipments (snd (create e u req d)) = shipments d @ [s]
          \<and> status s = ''Label Created'' \<and> hist_ok s)"
  by (simp add: create_def Let_def hist_ok_def)

lemma advance_shipments:
  "shipments (snd (advance e req d)) = shipments d
   \<or> (\<exists>i<length (shipments d).
         shipments (snd (advance e req d))
           = (shipments d)[i := stepped (clock e 0) (shipments d ! i)])"
proof (cases "find_ref (\<lambda>x. tracking x = toUpperCase e (params_tracking req)) (shipments d)")
  case None
  then show ?thesis by (simp add: advance_not_found)
next
  case (Some i)
  then have "i < length (shipments d)" by (simp add: find_ref_Some)
  with Some show ?thesis by (auto simp: advance_found)
qed

lemma register_shipments: "shipments (snd (register e req d)) = shipments d"
  by (simp add: register_def Let_def split: jsval.splits option.splits)

lemma login_db: "snd (login e req d) = d"
  by (simp add: login_def split: jsval.splits option.splits)

lemma lookup_db: "snd (lookup e req d) = d"
  by (simp add: lookup_def split: option.splits)

text \<open>Every call leaves each stored shipment as it was or steps it; it may add a fresh one.\<close>

lemma handle_shipments:
  "(\<exists>i<length (shipments d). \<exists>now.
       shipments (snd (handle c d)) = (shipments d)[i := stepped now (shipments d ! i)])
   \<or> shipments (snd (handle c d)) = shipments d
   \<or> (\<exists>s. shipments (snd (handle c d)) = shipments d @ [s]
          \<and> status s = ''Label Created'' \<and> hist_ok s)"
proof (cases c)
  case (Register e req)
  then show ?thesis by (simp add: register_shipments)
next
  case (Login e req)
  then show ?thesis by (simp add: login_db)
next
  case (Create e req)
  show ?thesis
  proof (cases "authMiddleware e req")
    case (Inl err)
    with Create show ?thesis by (simp add: with_auth_def)
  next
    case (Inr u)
    with Create create_shipments[of e u req d] show ?thesis
      by (auto simp: with_auth_def)
  qed
next
  case (Lookup e req)
  then show ?thesis by (simp add: lookup_db)
next
  case (MyShipments e req)
  then show ?thesis by (simp add: with_auth_def my_shipments_def split: sum.splits)
next
  case (Advance e req)
  with advance_shipments[of e req d] show ?thesis by auto
qed

lemma handle_preserves:
  assumes "\<And>now s. P s \<Longrightarrow> P (stepped now s)"
    and "\<And>s. status s = ''Label Created'' \<Longrightarrow> hist_ok s \<Longrightarrow> P s"
    and "\<forall>s\<in>set (shipments d). P s"
  shows "\<forall>s\<in>set (shipments (snd (handle c d))). P s"
proof -
  from handle_shipments[of d c]
  consider (step) i now where "i < length (shipments d)"
      "shipments (snd (handle c d)) = (shipments d)[i := stepped now (shipments d ! i)]"
    | (same) "shipments (snd (handle c d)) = shipments d"
    | (new) s where "shipments (snd (handle c d)) = shipments d @ [s]"
        "status s = ''Label Created''" "hist_ok s"
    by blast
  then show ?thesis
  proof cases
    case step
    from step(1) assms(3) have "P (shipments d ! i)" by simp
    then have "P (stepped now (shipments d ! i))" by (rule assms(1))
    with assms(3) step(2) show ?thesis
      using set_update_subset_insert[of "shipments d" i "stepped now (shipments d ! i)"] by auto
  next
    case same
    with assms(3) show ?thesis by simp
  next
    case new
    with assms(2,3) show ?thesis by auto
  qed
qed

lemma run_preserves:
  assumes "\<And>now s. P s \<Longrightarrow> P (stepped now s)"
    and "\<And>s. status s = ''Label Created'' \<Longrightarrow> hist_ok s \<Longrightarrow> P s"
  shows "\<forall>s\<in>set (shipments d). P s \<Longrightarrow> \<forall>s\<in>set (shipments (run cs d)). P s"
proof (induction cs arbitrary: d)
  case Nil
  then show ?case by simp
next
  case (Cons c cs)
  from assms Cons.prems have "\<forall>s\<in>set (shipments (snd (handle c d))). P s"
    by (rule handle_preserves)
  then show ?case using Cons.IH by simp
qed

lemma run_hist_ok: "\<forall>s\<in>set (shipments (run cs init_db)). hist_ok s"
  by (rule run_preserves) (simp_all add: hist_ok_stepped init_db_def)

lemma run_stage_ok: "\<forall>s\<in>set (shipments (run cs init_db)). status s \<in> set nextStatuses"
proof (rule run_preserves)
  show "status (stepped now s) \<in> set nextStatuses" for now s
    by (simp add: stepped_fields next_status_in_stages)
  show "status s = ''Label Created'' \<Longrightarrow> status s \<in> set nextStatuses" for s :: shipment
    by (simp add: in_stages)
  show "\<forall>s\<in>set (shipments init_db). status s \<in> set nextStatuses"
    by (simp add: init_db_def)
qed

text \<open>
  C3. \<open>create\<close> and \<open>advance\<close> keep the invariant that every stored shipment has a
  non-empty history whose last entry carries the shipment's status: the shipment that
  \<open>create\<close> returns has it, the shipment that \<open>advance\<close> returns has it, every other
  stored shipment is left as it was, and so every store reached from the empty one by any
  sequence of requests has it.
\<close>

theorem history_ends_with_status:
  "((\<forall>s\<in>set (shipments d). hist_ok s)
      \<longrightarrow> (\<forall>s\<in>set (shipments (snd (create e u req d))). hist_ok s)
          \<and> (\<forall>s\<in>set (shipments (snd (advance e areq d))). hist_ok s))
   \<and> (fst (create e u req d) = Inr (ShipmentReply s) \<longrightarrow> hist_ok s)
   \<and> (fst (advance e areq d) = Inr (ShipmentReply s) \<longrightarrow> hist_ok s)
   \<and> (\<forall>s\<in>set (shipments (run cs init_db)). hist_ok s)"
  (is "?keep \<and> ?created \<and> ?advanced \<and> ?reach")
proof (intro conjI)
  show ?keep
  proof (intro impI conjI)
    assume inv: "\<forall>s\<in>set (shipments d). hist_ok s"
    from create_shipments[of e u req d] inv
    show "\<forall>s\<in>set (shipments (snd (create e u req d))). hist_ok s" by auto
    from advance_shipments[of e areq d]
    show "\<forall>s\<in>set (shipments (snd (advance e areq d))). hist_ok s"
    proof
      assume "shipments (snd (advance e areq d)) = shipments d"
      with inv show ?thesis by simp
    next
      assume "\<exists>i<length (shipments d).
         shipments (snd (advance e areq d))
           = (shipments d)[i := stepped (clock e 0) (shipments d ! i)]"
      then obtain i where "shipments (snd (advance e areq d))
           = (shipments d)[i := stepped (clock e 0) (shipments d ! i)]" by blast
      with inv hist_ok_stepped[of "clock e 0" "shipments d ! i"] show ?thesis
        using set_update_subset_insert[of "shipments d" i "stepped (clock e 0) (shipments d ! i)"]
        by auto
    qed
  qed
  show ?created
    using hist_ok_create[of e u req d s "snd (create e u req d)"] by (simp add: prod_eq_iff)
  show ?advanced
    by (auto simp: advance_def Let_def hist_ok_stepped split: option.splits)
  show ?reach by (rule run_hist_ok)
qed

theorem history_ends_with_status_witness:
  "hist_ok (shipments demo_db ! 0) \<and> hist_ok (shipments demo_db ! 1) \<and> hist_ok (shipments demo_db ! 2)
   \<and> length (shipments demo_db) = 3
   \<and> hist_ok (shipments (snd (advance demo_env (track_req ''abcdefghij'') demo_db)) ! 1)
   \<and> hist_ok (shipments (snd (create demo_env demo_user create_req demo_db)) ! 3)
   \<and> length (history (shipments (snd (advance demo_env (track_req ''abcdefghij'') demo_db)) ! 1)) = 2"
proof -
  have ok: "hist_ok (shipments demo_db ! 0) \<and> hist_ok (shipments demo_db ! 1) \<and> hist_ok (shipments demo_db ! 2)"
    and len: "length (shipments demo_db) = 3"
    by (simp_all add: demo_db_def demo_shipment_def hist_ok_def)
  have inv: "\<forall>s\<in>set (shipments demo_db). hist_ok s"
    using ok by (simp add: demo_db_def)
  have l1: "length (shipments (snd (advance demo_env (track_req ''abcdefghij'') demo_db))) = 3"
    by (simp add: advance_def Let_def demo_db_def split: option.splits)
  have l2: "length (shipments (snd (create demo_env demo_user create_req demo_db))) = 4"
    by (simp add: create_def Let_def demo_db_def create_req_def no_body_def falsy_def)
  from history_ends_with_status[where d = demo_db and e = demo_env and u = demo_user and req = create_req] inv
  have a: "\<forall>s\<in>set (shipments (snd (create demo_env demo_user create_req demo_db))). hist_ok s"
    by blast
  from history_ends_with_status[where d = demo_db and e = demo_env and areq = "track_req ''abcdefghij''"] inv
  have b: "\<forall>s\<in>set (shipments (snd (advance demo_env (track_req ''abcdefghij'') demo_db))). hist_ok s"
    by blast
  from a l2 have "hist_ok (shipments (snd (create demo_env demo_user create_req demo_db)) ! 3)"
    by (simp add: all_set_conv_all_nth)
  moreover from b l1 have "hist_ok (shipments (snd (advance demo_env (track_req ''abcdefghij'') demo_db)) ! 1)"
    by (simp add: all_set_conv_all_nth)
  moreover have "length (history (shipments (snd (advance demo_env (track_req ''abcdefghij'') demo_db)) ! 1)) = 2"
    by (simp add: advance_def track_req_def demo_upper demo_db_def demo_shipment_def stepped_def Let_def)
  ultimately show ?thesis using ok len by simp
qed

section \<open>The status moves one stage at a time\<close>

lemma indexOf_next_status:
  "c \<in> set nextStatuses \<Longrightarrow>
     0 \<le> indexOf nextStatuses c \<and> indexOf nextStatuses c \<le> 4
     \<and> indexOf nextStatuses (next_status c)
         = (if indexOf nextStatuses c = 4 then 4 else indexOf nextStatuses c + 1)"
  by (auto simp: in_stages indexOf_stages next_status_stages)

text \<open>
  C4. In a store reached from the empty one by any sequence of requests, every status is
  one of the five stages, and \<open>advance\<close> moves the status of the shipment it addresses
  from stage index \<open>a\<close> to \<open>a + 1\<close>, or leaves it at 4 when \<open>a\<close> is 4 (\<open>Delivered\<close>).
  No request of any kind moves the status of a stored shipment backward or by more than
  one stage.
\<close>

theorem status_moves_one_stage:
  "(i < length (shipments (run cs init_db))
      \<and> tracking (shipments (run cs init_db) ! i) = toUpperCase e (params_tracking req)
      \<and> (\<forall>j<i. tracking (shipments (run cs init_db) ! j) \<noteq> toUpperCase e (params_tracking req))
    \<longrightarrow> (let a = indexOf nextStatuses (status (shipments (run cs init_db) ! i));
             b = indexOf nextStatuses
                   (status (shipments (snd (advance e req (run cs init_db))) ! i))
         in 0 \<le> a \<and> a \<le> 4 \<and> b = (if a = 4 then 4 else a + 1)))
   \<and> (k < length (shipments (run cs init_db))
    \<longrightarrow> (let a = indexOf nextStatuses (status (shipments (run cs init_db) ! k));
             b = indexOf nextStatuses
                   (status (shipments (snd (handle c (run cs init_db))) ! k))
         in 0 \<le> a \<and> a \<le> 4 \<and> (b = a \<or> b = a + 1) \<and> (b = a \<and> a \<noteq> 4 \<longrightarrow>
              status (shipments (snd (handle c (run cs init_db))) ! k)
                = status (shipments (run cs init_db) ! k))))"
  (is "?adv \<and> ?any")
proof
  let ?d = "run cs init_db"
  show ?adv
  proof
    assume a: "i < length (shipments ?d)
      \<and> tracking (shipments ?d ! i) = toUpperCase e (params_tracking req)
      \<and> (\<forall>j<i. tracking (shipments ?d ! j) \<noteq> toUpperCase e (params_tracking req))"
    then have found:
      "find_ref (\<lambda>x. tracking x = toUpperCase e (params_tracking req)) (shipments ?d) = Some i"
      by (simp add: find_ref_Some)
    from a have "status (shipments ?d ! i) \<in> set nextStatuses"
      using run_stage_ok[of cs] by simp
    then have idx: "0 \<le> indexOf nextStatuses (status (shipments ?d ! i))
        \<and> indexOf nextStatuses (status (shipments ?d ! i)) \<le> 4
        \<and> indexOf nextStatuses (next_status (status (shipments ?d ! i)))
            = (if indexOf nextStatuses (status (shipments ?d ! i)) = 4 then 4
               else indexOf nextStatuses (status (shipments ?d ! i)) + 1)"
      by (rule indexOf_next_status)
    have "status (shipments (snd (advance e req ?d)) ! i) = next_status (status (shipments ?d ! i))"
      using a by (simp add: advance_found[OF found] stepped_fields)
    with idx show "let a = indexOf nextStatuses (status (shipments ?d ! i));
             b = indexOf nextStatuses (status (shipments (snd (advance e req ?d)) ! i))
         in 0 \<le> a \<and> a \<le> 4 \<and> b = (if a = 4 then 4 else a + 1)"
      by (simp add: Let_def)
  qed
  show ?any
  proof
    assume k: "k < length (shipments ?d)"
    then have "status (shipments ?d ! k) \<in> set nextStatuses"
      using run_stage_ok[of cs] by simp
    then have idx: "0 \<le> indexOf nextStatuses (status (shipments ?d ! k))
        \<and> indexOf nextStatuses (status (shipments ?d ! k)) \<le> 4
        \<and> indexOf nextStatuses (next_status (status (shipments ?d ! k)))
            = (if indexOf nextStatuses (status (shipments ?d ! k)) = 4 then 4
               else indexOf nextStatuses (status (shipments ?d ! k)) + 1)"
      by (rule indexOf_next_status)
    have "status (shipments (snd (handle c ?d)) ! k) = status (shipments ?d ! k)
          \<or> status (shipments (snd (handle c ?d)) ! k) = next_status (status (shipments ?d ! k))"
      using handle_shipments[of ?d c] k
      by (auto simp: nth_list_update nth_append stepped_fields)
    with idx show "let a = indexOf nextStatuses (status (shipments ?d ! k));
             b = indexOf nextStatuses (status (shipments (snd (handle c ?d)) ! k))
         in 0 \<le> a \<and> a \<le> 4 \<and> (b = a \<or> b = a + 1) \<and> (b = a \<and> a \<noteq> 4 \<longrightarrow>
              status (shipments (snd (handle c ?d)) ! k) = status (shipments ?d ! k))"
      by (auto simp: Let_def split: if_splits)
  qed
qed


lemma demo_auth: "authMiddleware demo_env create_req = Inr demo_user"
  by (simp add: authMiddleware_def create_req_def demo_env_def demo_user_def at_index_def)

lemma demo_run_create:
  "run [Create demo_env create_req] init_db = snd (create demo_env demo_user create_req init_db)"
  by (simp add: with_auth_def demo_auth)

lemma demo_created:
  "length (shipments (run [Create demo_env create_req] init_db)) = 1"
  "tracking (shipments (run [Create demo_env create_req] init_db) ! 0) = ''V1STGXR8Z5''"
  "status (shipments (run [Create demo_env create_req] init_db) ! 0) = ''Label Created''"
  unfolding demo_run_create
  by (simp_all add: create_def Let_def init_db_def
        create_req_def no_body_def falsy_def demo_nanoid demo_upper)

theorem status_moves_one_stage_witness:
  "length (shipments (run [Create demo_env create_req] init_db)) = 1
   \<and> tracking (shipments (run [Create demo_env create_req] init_db) ! 0)
       = toUpperCase demo_env (params_tracking (track_req ''v1stgxr8z5''))
   \<and> indexOf nextStatuses (status (shipments (run [Create demo_env create_req] init_db) ! 0)) = 0
   \<and> indexOf nextStatuses
        (status (shipments (snd (advance demo_env (track_req ''v1stgxr8z5'')
                                  (run [Create demo_env create_req] init_db))) ! 0)) = 1"
proof -
  have h: "0 < length (shipments (run [Create demo_env create_req] init_db))
      \<and> tracking (shipments (run [Create demo_env create_req] init_db) ! 0)
          = toUpperCase demo_env (params_tracking (track_req ''v1stgxr8z5''))
      \<and> (\<forall>j<0. tracking (shipments (run [Create demo_env create_req] init_db) ! j)
                  \<noteq> toUpperCase demo_env (params_tracking (track_req ''v1stgxr8z5'')))"
    by (simp add: demo_created track_req_def demo_upper del: run.simps)
  have a: "indexOf nextStatuses (status (shipments (run [Create demo_env create_req] init_db) ! 0)) = 0"
    by (simp add: demo_created indexOf_stages del: run.simps)
  from status_moves_one_stage[where i = 0 and cs = "[Create demo_env create_req]"
      and req = "track_req ''v1stgxr8z5''" and e = demo_env] h
  have "let a = indexOf nextStatuses (status (shipments (run [Create demo_env create_req] init_db) ! 0));
            b = indexOf nextStatuses
                  (status (shipments (snd (advance demo_env (track_req ''v1stgxr8z5'')
                                            (run [Create demo_env create_req] init_db))) ! 0))
        in 0 \<le> a \<and> a \<le> 4 \<and> b = (if a = 4 then 4 else a + 1)"
    by blast
  with a have "indexOf nextStatuses
        (status (shipments (snd (advance demo_env (track_req ''v1stgxr8z5'')
                                  (run [Create demo_env create_req] init_db))) ! 0)) = 1"
    by (simp add: Let_def del: run.simps)
  with h a show ?thesis by (simp add: demo_created del: run.simps)
qed

section \<open>Advancing a fresh shipment again and again\<close>

lemma stepped_tracking_map:
  "i < length xs \<Longrightarrow> map tracking (xs[i := stepped now (xs ! i)]) = map tracking xs"
  by (simp add: map_update stepped_fields list_update_same_conv)

lemma run_advances:
  "find_ref (\<lambda>x. tracking x = code) (shipments d) = Some i
   \<Longrightarrow> \<forall>a\<in>set es. toUpperCase a (params_tracking req) = code
   \<Longrightarrow> run (map (\<lambda>a. Advance a req) es) d
       = d\<lparr>shipments := (shipments d)[i := foldl (\<lambda>s a. stepped (clock a 0) s) (shipments d ! i) es]\<rparr>"
proof (induction es arbitrary: d)
  case Nil
  then show ?case by simp
next
  case (Cons e es)
  let ?P = "\<lambda>x. tracking x = code"
  let ?s = "stepped (clock e 0) (shipments d ! i)"
  let ?d' = "d\<lparr>shipments := (shipments d)[i := ?s]\<rparr>"
  from Cons.prems(1) have i: "i < length (shipments d)" by (simp add: find_ref_Some)
  from Cons.prems(2) have code: "toUpperCase e (params_tracking req) = code"
    and rest: "\<forall>a\<in>set es. toUpperCase a (params_tracking req) = code"
    by simp_all
  from Cons.prems(1) code
  have found: "find_ref (\<lambda>x. tracking x = toUpperCase e (params_tracking req)) (shipments d) = Some i"
    by simp
  have "map tracking (shipments ?d') = map tracking (shipments d)"
    using i by (simp add: stepped_tracking_map)
  then have "find_ref ?P (shipments ?d') = find_ref ?P (shipments d)"
    by (rule find_ref_cong_map)
  with Cons.prems(1) have found': "find_ref ?P (shipments ?d') = Some i" by simp
  have "run (map (\<lambda>a. Advance a req) (e # es)) d = run (map (\<lambda>a. Advance a req) es) ?d'"
    by (simp add: advance_found[OF found])
  also have "\<dots> = ?d'\<lparr>shipments :=
      (shipments ?d')[i := foldl (\<lambda>s a. stepped (clock a 0) s) (shipments ?d' ! i) es]\<rparr>"
    by (rule Cons.IH[OF found' rest])
  also have "\<dots> = d\<lparr>shipments :=
      (shipments d)[i := foldl (\<lambda>s a. stepped (clock a 0) s) (shipments d ! i) (e # es)]\<rparr>"
    using i by simp
  finally show ?case .
qed

lemma foldl_stepped_status:
  "status (foldl (\<lambda>s e. stepped (clock e 0) s) s es) = (next_status ^^ length es) (status s)"
  by (induction es rule: rev_induct) (simp_all add: stepped_fields)

lemma foldl_stepped_history:
  "map entry_status (history (foldl (\<lambda>s e. stepped (clock e 0) s) s es))
     = map entry_status (history s) @ map (\<lambda>k. (next_status ^^ k) (status s)) [1..<Suc (length es)]"
  by (induction es rule: rev_induct) (simp_all add: stepped_fields foldl_stepped_status)

lemma funpow_delivered: "(next_status ^^ n) ''Delivered'' = ''Delivered''"
  by (induction n) (simp_all add: next_status_stages)

lemma funpow_from_label:
  "(next_status ^^ (4 + m)) ''Label Created'' = ''Delivered''"
proof -
  have "(next_status ^^ 4) ''Label Created'' = ''Delivered''"
    by (simp add: numeral_eq_Suc next_status_stages)
  then show ?thesis
    by (simp add: add.commute[of 4 m] funpow_add funpow_delivered del: funpow.simps)
qed

lemma stages_then_delivered:
  "map (\<lambda>k. (next_status ^^ k) ''Label Created'') [0..<Suc (4 + m)]
     = nextStatuses @ replicate m ''Delivered''"
proof (induction m)
  case 0
  have "[0..<Suc 4] = [0, 1, 2, 3, 4]" by (simp add: upt_rec)
  then show ?case
    by (simp add: numeral_eq_Suc next_status_stages nextStatuses_def)
next
  case (Suc m)
  have "[0..<Suc (Suc (4 + m))] = [0..<Suc (4 + m)] @ [Suc (4 + m)]"
    by (rule upt_Suc_append) simp
  then have "[0..<Suc (4 + Suc m)] = [0..<Suc (4 + m)] @ [4 + Suc m]"
    by (simp only: add_Suc_right)
  then have "map (\<lambda>k. (next_status ^^ k) ''Label Created'') [0..<Suc (4 + Suc m)]
      = map (\<lambda>k. (next_status ^^ k) ''Label Created'') [0..<Suc (4 + m)]
        @ [(next_status ^^ (4 + Suc m)) ''Label Created'']"
    by (simp del: upt_Suc funpow.simps)
  also have "\<dots> = (nextStatuses @ replicate m ''Delivered'') @ [''Delivered'']"
    by (simp only: Suc.IH funpow_from_label)
  also have "\<dots> = nextStatuses @ replicate (Suc m) ''Delivered''"
    by (simp add: replicate_append_same)
  finally show ?case .
qed




lemma fresh_then_advanced:
  assumes ok: "\<not> falsy (body req ''toName'')" "\<not> falsy (body req ''toAddress'')"
    and new: "\<forall>x\<in>set (shipments d). tracking x \<noteq> toUpperCase e (nanoid e 10)"
    and code: "\<forall>a\<in>set es. toUpperCase a (params_tracking areq) = toUpperCase e (nanoid e 10)"
  shows "status (shipments (run (map (\<lambda>a. Advance a areq) es) (snd (create e u req d)))
                   ! length (shipments d))
           = (next_status ^^ length es) ''Label Created''"
    and "map entry_status
           (history (shipments (run (map (\<lambda>a. Advance a areq) es) (snd (create e u req d)))
                       ! length (shipments d)))
           = map (\<lambda>k. (next_status ^^ k) ''Label Created'') [0..<Suc (length es)]"
proof -
  let ?P = "\<lambda>x. tracking x = toUpperCase e (nanoid e 10)"
  obtain s0 where d1: "snd (create e u req d) = d\<lparr>shipments := shipments d @ [s0]\<rparr>"
    and s0: "tracking s0 = toUpperCase e (nanoid e 10)" "status s0 = ''Label Created''"
      "map entry_status (history s0) = [''Label Created'']"
    using ok by (simp add: create_def Let_def)
  have found: "find_ref ?P (shipments (snd (create e u req d))) = Some (length (shipments d))"
    unfolding d1 using new s0(1) by (simp add: find_ref_append_new)
  have nth: "shipments (run (map (\<lambda>a. Advance a areq) es) (snd (create e u req d)))
               ! length (shipments d)
             = foldl (\<lambda>s a. stepped (clock a 0) s) s0 es"
    unfolding run_advances[OF found code] by (simp add: d1)
  show "status (shipments (run (map (\<lambda>a. Advance a areq) es) (snd (create e u req d)))
                   ! length (shipments d))
           = (next_status ^^ length es) ''Label Created''"
    unfolding nth by (simp add: foldl_stepped_status s0)
  have "[0..<Suc (length es)] = 0 # [1..<Suc (length es)]"
    by (simp add: upt_conv_Cons del: upt_Suc)
  then show "map entry_status
           (history (shipments (run (map (\<lambda>a. Advance a areq) es) (snd (create e u req d)))
                       ! length (shipments d)))
           = map (\<lambda>k. (next_status ^^ k) ''Label Created'') [0..<Suc (length es)]"
    unfolding nth by (simp add: foldl_stepped_history s0 del: upt_Suc)
qed

text \<open>
  C2, as the code has it. A shipment is created with a tracking code no stored shipment
  carries, and then advanced \<open>N \<ge> 4\<close> times by a code that each of the \<open>N\<close> requests
  upper-cases to that tracking code. Its status
  is \<open>Delivered\<close>; its history has \<open>N + 1\<close> entries, the five stages in order followed by
  \<open>N - 4\<close> further \<open>Delivered\<close> entries; every entry's status is one of the five stages.
\<close>

theorem advance_n_times_fresh:
  assumes "\<not> falsy (body req ''toName'')" and "\<not> falsy (body req ''toAddress'')"
    and "\<forall>x\<in>set (shipments d). tracking x \<noteq> toUpperCase e (nanoid e 10)"
    and "\<forall>a\<in>set es. toUpperCase a (params_tracking areq) = toUpperCase e (nanoid e 10)"
    and "4 \<le> length es"
  shows "let s = shipments (run (map (\<lambda>a. Advance a areq) es) (snd (create e u req d)))
                   ! length (shipments d)
         in status s = ''Delivered''
            \<and> length (history s) = length es + 1
            \<and> map entry_status (history s) = nextStatuses @ replicate (length es - 4) ''Delivered''
            \<and> (\<forall>h\<in>set (history s). entry_status h \<in> set nextStatuses)"
proof -
  let ?s = "shipments (run (map (\<lambda>a. Advance a areq) es) (snd (create e u req d)))
              ! length (shipments d)"
  from assms(5) obtain m where m: "length es = 4 + m"
    using le_Suc_ex by blast
  have st: "status ?s = ''Delivered''"
    using fresh_then_advanced(1)[OF assms(1-4), of u] by (simp only: m funpow_from_label)
  have hist: "map entry_status (history ?s) = nextStatuses @ replicate (length es - 4) ''Delivered''"
    using fresh_then_advanced(2)[OF assms(1-4), of u]
    by (simp only: m stages_then_delivered add_diff_cancel_left')
  from arg_cong[OF hist, of length] have len: "length (history ?s) = length es + 1"
    using m by (simp add: nextStatuses_def)
  have "set (map entry_status (history ?s)) \<subseteq> set nextStatuses"
    unfolding hist by (auto simp: in_stages)
  then have "\<forall>h\<in>set (history ?s). entry_status h \<in> set nextStatuses" by auto
  with st hist len show ?thesis unfolding Let_def by blast
qed

lemma demo_fresh:
  "\<not> falsy (body create_req ''toName'')" "\<not> falsy (body create_req ''toAddress'')"
  "shipments init_db = []"
  "toUpperCase demo_env (params_tracking (track_req ''v1stgxr8z5'')) = toUpperCase demo_env (nanoid demo_env 10)"
  by (simp_all add: create_req_def no_body_def falsy_def init_db_def track_req_def demo_nanoid
        demo_upper)

theorem advance_n_times_fresh_witness:
  "\<not> falsy (body create_req ''toName'') \<and> \<not> falsy (body create_req ''toAddress'')
   \<and> shipments init_db = []
   \<and> toUpperCase demo_env (params_tracking (track_req ''v1stgxr8z5'')) = toUpperCase demo_env (nanoid demo_env 10)
   \<and> 4 \<le> length [demo_env, demo_env, demo_env, demo_env, demo_env]
   \<and> status (shipments (run five_advances (snd (create demo_env demo_user create_req init_db))) ! 0)
       = ''Delivered''
   \<and> map entry_status
       (history (shipments (run five_advances (snd (create demo_env demo_user create_req init_db))) ! 0))
       = [''Label Created'', ''Picked Up'', ''In Transit'', ''Out for Delivery'', ''Delivered'',
          ''Delivered'']"
proof -
  have new: "\<forall>x\<in>set (shipments init_db). tracking x \<noteq> toUpperCase demo_env (nanoid demo_env 10)"
    by (simp add: demo_fresh(3))
  have same: "\<forall>a\<in>set [demo_env, demo_env, demo_env, demo_env, demo_env].
      toUpperCase a (params_tracking (track_req ''v1stgxr8z5'')) = toUpperCase demo_env (nanoid demo_env 10)"
    by (simp add: demo_fresh(4))
  have n: "4 \<le> length [demo_env, demo_env, demo_env, demo_env, demo_env]" by simp
  from advance_n_times_fresh[OF demo_fresh(1,2) new same n, of demo_user]
  have "status (shipments (run five_advances (snd (create demo_env demo_user create_req init_db))) ! 0)
       = ''Delivered''"
    and "map entry_status
       (history (shipments (run five_advances (snd (create demo_env demo_user create_req init_db))) ! 0))
       = nextStatuses @ replicate (5 - 4) ''Delivered''"
    by (simp_all add: Let_def five_advances_def demo_fresh(3) del: run.simps)
  then show ?thesis using demo_fresh by (simp add: nextStatuses_def)
qed

text \<open>
  C2, as the specification words it, promises a history of \<open>min(N, 4) + 1\<close> entries. Five
  advances of a fresh shipment leave six.
\<close>

theorem five_advances_counterexample:
  "(4::nat) \<le> 5
   \<and> length five_advances = 5
   \<and> status (shipments (run five_advances (snd (create demo_env demo_user create_req init_db))) ! 0)
       = ''Delivered''
   \<and> length (history (shipments (run five_advances
                (snd (create demo_env demo_user create_req init_db))) ! 0)) = 6
   \<and> length (history (shipments (run five_advances
                (snd (create demo_env demo_user create_req init_db))) ! 0)) \<noteq> min 5 4 + 1"
proof -
  have new: "\<forall>x\<in>set (shipments init_db). tracking x \<noteq> toUpperCase demo_env (nanoid demo_env 10)"
    by (simp add: demo_fresh(3))
  have same: "\<forall>a\<in>set [demo_env, demo_env, demo_env, demo_env, demo_env].
      toUpperCase a (params_tracking (track_req ''v1stgxr8z5'')) = toUpperCase demo_env (nanoid demo_env 10)"
    by (simp add: demo_fresh(4))
  note f = fresh_then_advanced[OF demo_fresh(1,2) new same, of demo_user]
  have st: "status (shipments (run five_advances (snd (create demo_env demo_user create_req init_db))) ! 0)
       = ''Delivered''"
    using f(1)
    by (simp add: five_advances_def demo_fresh(3) next_status_stages del: run.simps)
  from arg_cong[OF f(2), of length]
  have "length (history (shipments (run five_advances
                (snd (create demo_env demo_user create_req init_db))) ! 0)) = 6"
    by (simp add: five_advances_def demo_fresh(3) del: run.simps funpow.simps upt_Suc)
  with st show ?thesis by (simp add: five_advances_def)
qed

section \<open>Registering the same email twice\<close>





end
